theory Spec2Isabelle
  imports
    Main
    "HOL-Library.Word"
    "HOL-Library.Multiset"
    "HOL-Library.Sublist"
    "HOL-Library.Char_ord"
    "HOL-Library.List_Lexorder"
begin

unbundle bit_operations_syntax

section \<open>The region library \<open>where\<close>: data model\<close>

text \<open>
  The Go package \<open>where\<close> answers queries over a static catalog of cloud regions.
  Go strings are byte sequences and are compared bytewise, which is the lexicographic
  order of \<open>char list\<close> (\<open>HOL-Library.List_Lexorder\<close> over \<open>HOL-Library.Char_ord\<close>).
  A \<open>float64\<close> is its IEEE-754 binary64 bit pattern; a \<open>time.Time\<close> is an instant,
  \<open>0\<close> standing for the zero \<open>Time\<close>.
\<close>

type_synonym Code = string
type_synonym Status = "8 word"
type_synonym float64 = "64 word"
type_synonym Time = int

subsection \<open>Comparison of \<open>float64\<close> values\<close>

text \<open>
  The comparison operators of Go on \<open>float64\<close> are those of IEEE-754: a NaN (exponent
  bits all one, fraction not zero) compares false with everything, the two zeros are
  equal, and every other pair is ordered by sign and magnitude.
\<close>

definition isNaN :: "float64 \<Rightarrow> bool" where
  "isNaN x \<longleftrightarrow> drop_bit 52 x AND 0x7FF = 0x7FF \<and> x AND mask 52 \<noteq> 0"

definition fkey :: "float64 \<Rightarrow> int" where
  "fkey x = (if bit x 63 then - uint (x AND mask 63) else uint (x AND mask 63))"

definition flt :: "float64 \<Rightarrow> float64 \<Rightarrow> bool" where
  "flt x y \<longleftrightarrow> \<not> isNaN x \<and> \<not> isNaN y \<and> fkey x < fkey y"

definition fle :: "float64 \<Rightarrow> float64 \<Rightarrow> bool" where
  "fle x y \<longleftrightarrow> \<not> isNaN x \<and> \<not> isNaN y \<and> fkey x \<le> fkey y"

definition feq :: "float64 \<Rightarrow> float64 \<Rightarrow> bool" where
  "feq x y \<longleftrightarrow> \<not> isNaN x \<and> \<not> isNaN y \<and> fkey x = fkey y"

definition Pi :: float64 where "Pi = 0x400921FB54442D18"
definition earthRadiusKm :: float64 where "earthRadiusKm = 0x40B8E30000000000"
definition f180 :: float64 where "f180 = 0x4066800000000000"
definition f2 :: float64 where "f2 = 0x4000000000000000"
definition f1 :: float64 where "f1 = 0x3FF0000000000000"
definition f500 :: float64 where "f500 = 0x407F400000000000"

text \<open>
  The arithmetic of \<open>float64\<close> and the functions of package \<open>math\<close> belong to the Go
  runtime, not to the repository: they are a parameter of every function that computes
  a distance.
\<close>

record fpu =
  fadd :: "float64 \<Rightarrow> float64 \<Rightarrow> float64"
  fsub :: "float64 \<Rightarrow> float64 \<Rightarrow> float64"
  fmul :: "float64 \<Rightarrow> float64 \<Rightarrow> float64"
  fdiv :: "float64 \<Rightarrow> float64 \<Rightarrow> float64"
  Sin :: "float64 \<Rightarrow> float64"
  Cos :: "float64 \<Rightarrow> float64"
  Sqrt :: "float64 \<Rightarrow> float64"
  Atan2 :: "float64 \<Rightarrow> float64 \<Rightarrow> float64"

text \<open>\<open>haversineDistance\<close> (\<open>types.go\<close>, line 258).\<close>

definition haversineDistance ::
    "fpu \<Rightarrow> float64 \<Rightarrow> float64 \<Rightarrow> float64 \<Rightarrow> float64 \<Rightarrow> float64" where
  "haversineDistance M lat1 lng1 lat2 lng2 =
    (let dLat = fdiv M (fmul M (fsub M lat2 lat1) Pi) f180;
         dLng = fdiv M (fmul M (fsub M lng2 lng1) Pi) f180;
         lat1Rad = fdiv M (fmul M lat1 Pi) f180;
         lat2Rad = fdiv M (fmul M lat2 Pi) f180;
         a = fadd M
               (fmul M (Sin M (fdiv M dLat f2)) (Sin M (fdiv M dLat f2)))
               (fmul M
                 (fmul M
                   (fmul M (Sin M (fdiv M dLng f2)) (Sin M (fdiv M dLng f2)))
                   (Cos M lat1Rad))
                 (Cos M lat2Rad));
         c = fmul M f2 (Atan2 M (Sqrt M a) (Sqrt M (fsub M f1 a)))
     in fmul M earthRadiusKm c)"

subsection \<open>Regions\<close>

record Region =
  Code :: Code
  Name :: string
  Provider :: string
  Country :: string
  City :: string
  Continent :: string
  Latitude :: float64
  Longitude :: float64
  Status :: Status
  LaunchDate :: Time
  Zones :: "string list"

text \<open>The zero value \<open>Region{}\<close>.\<close>

definition zero_Region :: Region where
  "zero_Region =
    \<lparr>Code = [], Name = [], Provider = [], Country = [], City = [], Continent = [],
     Latitude = 0, Longitude = 0, Status = 0, LaunchDate = 0, Zones = []\<rparr>"

definition Active :: Status where "Active = 0"
definition Deprecated :: Status where "Deprecated = 1"
definition Preview :: Status where "Preview = 2"


definition IsNear :: "fpu \<Rightarrow> Region \<Rightarrow> float64 \<Rightarrow> float64 \<Rightarrow> float64 \<Rightarrow> bool" where
  "IsNear M r lat lng radiusKm \<longleftrightarrow>
    fle (haversineDistance M (Latitude r) (Longitude r) lat lng) radiusKm"

subsection \<open>Errors\<close>

text \<open>
  The \<open>error\<close> values the package builds: the sentinel \<open>ErrRegionNotFound\<close> on its
  own (\<open>fmt.Errorf("%w", ErrRegionNotFound)\<close>), wrapped with one code
  (\<open>"%w: %s"\<close>) or with a list of codes (\<open>"%w: %v"\<close>), and the two plain messages
  \<open>"no regions found"\<close> and \<open>"no other regions found"\<close>. A Go function returning
  \<open>(T, error)\<close> returns a pair whose second component is \<open>None\<close> for \<open>nil\<close>.
\<close>

datatype error =
    ErrRegionNotFound
  | RegionNotFoundCode Code
  | RegionNotFoundCodes "Code list"
  | NoRegionsFound
  | NoOtherRegionsFound

text \<open>The run-time panic of a slice expression whose bound is out of range.\<close>

datatype panic = SliceBoundsOutOfRange int

section \<open>Sets of regions (\<open>types.go\<close>)\<close>

type_synonym Set = "Region list"

definition Set_Filter :: "Set \<Rightarrow> (Region \<Rightarrow> bool) \<Rightarrow> Set" where
  "Set_Filter s predicate = filter predicate s"

text \<open>
  \<open>strings.EqualFold\<close> is the standard library's Unicode case folding; the filters
  that use it take it as the parameter \<open>EqualFold\<close>.
\<close>

definition Set_OnProvider :: "(string \<Rightarrow> string \<Rightarrow> bool) \<Rightarrow> Set \<Rightarrow> string \<Rightarrow> Set" where
  "Set_OnProvider EqualFold s name = Set_Filter s (\<lambda>r. EqualFold (Provider r) name)"

definition Set_Near :: "fpu \<Rightarrow> Set \<Rightarrow> float64 \<Rightarrow> float64 \<Rightarrow> float64 \<Rightarrow> Set" where
  "Set_Near M s lat lng radiusKm = Set_Filter s (\<lambda>r. IsNear M r lat lng radiusKm)"

definition Set_First :: "Set \<Rightarrow> Region \<times> error option" where
  "Set_First s =
    (if length s = 0 then (zero_Region, Some NoRegionsFound) else (s ! 0, None))"

definition Set_Last :: "Set \<Rightarrow> Region \<times> error option" where
  "Set_Last s =
    (if length s = 0 then (zero_Region, Some NoRegionsFound)
     else (s ! (length s - 1), None))"

text \<open>
  A Go \<open>map[Code]bool\<close> reads as \<open>false\<close> at a key that was never stored.
\<close>

definition map_get :: "(Code \<rightharpoonup> bool) \<Rightarrow> Code \<Rightarrow> bool" where
  "map_get m c = (case m c of None \<Rightarrow> False | Some b \<Rightarrow> b)"

text \<open>
  \<open>Union\<close>: each of its two loops appends the regions whose code has not been seen,
  and marks the code as seen.
\<close>

fun union_loop :: "Set \<Rightarrow> (Code \<rightharpoonup> bool) \<times> Set \<Rightarrow> (Code \<rightharpoonup> bool) \<times> Set" where
  "union_loop [] (seen, result) = (seen, result)"
| "union_loop (region # rest) (seen, result) =
    (if \<not> map_get seen (Code region)
     then union_loop rest (seen(Code region \<mapsto> True), result @ [region])
     else union_loop rest (seen, result))"

definition Set_Union :: "Set \<Rightarrow> Set \<Rightarrow> Set" where
  "Set_Union s other = snd (union_loop other (union_loop s (Map.empty, [])))"

text \<open>The first loop of \<open>Intersect\<close> and of \<open>Difference\<close>: the codes of \<open>other\<close>.\<close>

fun code_map :: "Set \<Rightarrow> (Code \<rightharpoonup> bool) \<Rightarrow> (Code \<rightharpoonup> bool)" where
  "code_map [] otherMap = otherMap"
| "code_map (region # rest) otherMap = code_map rest (otherMap(Code region \<mapsto> True))"

definition Set_Intersect :: "Set \<Rightarrow> Set \<Rightarrow> Set" where
  "Set_Intersect s other =
    (let otherMap = code_map other Map.empty
     in filter (\<lambda>region. map_get otherMap (Code region)) s)"

definition Set_Difference :: "Set \<Rightarrow> Set \<Rightarrow> Set" where
  "Set_Difference s other =
    (let otherMap = code_map other Map.empty
     in filter (\<lambda>region. \<not> map_get otherMap (Code region)) s)"

text \<open>
  The four sorts are the same exchange sort over different comparisons: \<open>gt a b\<close> is
  the test \<open>a > b\<close> of the source, on the keys of the elements at \<open>i\<close> and \<open>j\<close>.
  The inner loop \<open>for j := i + 1; j < len(s); j++\<close> is only entered with \<open>i < j\<close>;
  the outer loop \<open>for i := 0; i < len(s)-1; i++\<close> compares signed integers, so its
  test is \<open>i + 1 < length s\<close> on natural numbers.
\<close>

function sort_inner :: "('a \<Rightarrow> 'a \<Rightarrow> bool) \<Rightarrow> nat \<Rightarrow> nat \<Rightarrow> 'a list \<Rightarrow> 'a list" where
  "sort_inner gt i j s =
    (if j < length s
     then sort_inner gt i (j + 1) (if gt (s ! i) (s ! j) then s[i := s ! j, j := s ! i] else s)
     else s)"
  by pat_completeness auto
termination
  by (relation "measure (\<lambda>(gt, i, j, s). length s - j)") auto

declare sort_inner.simps [simp del]

function sort_outer :: "('a \<Rightarrow> 'a \<Rightarrow> bool) \<Rightarrow> nat \<Rightarrow> 'a list \<Rightarrow> 'a list" where
  "sort_outer gt i s =
    (if i + 1 < length s then sort_outer gt (i + 1) (sort_inner gt i (i + 1) s) else s)"
  by pat_completeness auto
termination
proof (relation "measure (\<lambda>(gt, i, s). length s - i)")
  show "wf (measure (\<lambda>(gt, i, s). length s - i))" by simp
next
  fix gt :: "'a \<Rightarrow> 'a \<Rightarrow> bool" and i :: nat and s :: "'a list"
  assume less: "i + 1 < length s"
  have len: "length (sort_inner g a b xs) = length xs"
    for g :: "'a \<Rightarrow> 'a \<Rightarrow> bool" and a b xs
  proof (induction g a b xs rule: sort_inner.induct)
    case (1 g a b xs)
    show ?case
    proof (cases "b < length xs")
      case True
      with "1.IH" show ?thesis
        by (subst sort_inner.simps) simp
    next
      case False
      then show ?thesis
        by (subst sort_inner.simps) simp
    qed
  qed
  from less show "((gt, i + 1, sort_inner gt i (i + 1) s), (gt, i, s))
      \<in> measure (\<lambda>(gt, i, s). length s - i)"
    by (simp add: len)
qed

declare sort_outer.simps [simp del]

definition Set_SortByDistance :: "fpu \<Rightarrow> Set \<Rightarrow> float64 \<Rightarrow> float64 \<Rightarrow> Set" where
  "Set_SortByDistance M s lat lng =
    sort_outer
      (\<lambda>a b. flt (haversineDistance M lat lng (Latitude b) (Longitude b))
                  (haversineDistance M lat lng (Latitude a) (Longitude a)))
      0 s"

definition Set_SortByName :: "Set \<Rightarrow> Set" where
  "Set_SortByName s = sort_outer (\<lambda>a b. Name a > Name b) 0 s"

definition Set_SortByProvider :: "Set \<Rightarrow> Set" where
  "Set_SortByProvider s = sort_outer (\<lambda>a b. Provider a > Provider b) 0 s"

definition Set_SortByCountry :: "Set \<Rightarrow> Set" where
  "Set_SortByCountry s = sort_outer (\<lambda>a b. Country a > Country b) 0 s"

section \<open>The catalog and the question-style API (\<open>api.go\<close>)\<close>

text \<open>
  \<open>regionRegistry\<close> is a package-level Go map filled from static tables; it is a
  parameter here. A \<open>range\<close> over a Go map visits the entries in an order the runtime
  chooses, so the registry is the list of its entries in the order the loop visits
  them, and a lookup is \<open>map_of\<close>. In the first version of \<open>api.go\<close> a code maps to
  the list of the regions that share it.
\<close>

type_synonym registry = "(Code \<times> Region list) list"




fun are_loop :: "registry \<Rightarrow> Code list \<Rightarrow> Set \<times> Code list \<Rightarrow> Set \<times> Code list" where
  "are_loop regionRegistry [] (regions, notFound) = (regions, notFound)"
| "are_loop regionRegistry (code # rest) (regions, notFound) =
    (case map_of regionRegistry code of
       Some regionList \<Rightarrow> are_loop regionRegistry rest (regions @ regionList, notFound)
     | None \<Rightarrow> are_loop regionRegistry rest (regions, notFound @ [code]))"

definition Are :: "registry \<Rightarrow> Code list \<Rightarrow> Set \<times> error option" where
  "Are regionRegistry codes =
    (case are_loop regionRegistry codes ([], []) of
       (regions, notFound) \<Rightarrow>
         if length notFound > 0 then (regions, Some (RegionNotFoundCodes notFound))
         else (regions, None))"





text \<open>
  The query builder is compiled against the second version of \<open>api.go\<close> (line 262
  onwards), where a code maps to one region and \<open>Is\<close> returns \<open>(Region, error)\<close>.
\<close>

type_synonym single_registry = "(Code \<times> Region) list"

definition single_Is :: "single_registry \<Rightarrow> Code \<Rightarrow> Region \<times> error option" where
  "single_Is regionRegistry code =
    (case map_of regionRegistry code of
       None \<Rightarrow> (zero_Region, Some (RegionNotFoundCode code))
     | Some region \<Rightarrow> (region, None))"

definition single_allRegions :: "single_registry \<Rightarrow> Set" where
  "single_allRegions regionRegistry = map snd regionRegistry"

section \<open>The query builder\<close>

text \<open>
  Modelled from the spec: \<open>Set.ByProvider\<close>, which \<open>Query.ByProvider\<close> calls, is not
  among the source files; \<open>types.go\<close> has the provider filter under the name
  \<open>OnProvider\<close>. It keeps, in order, the regions whose provider matches the name
  case-insensitively.
\<close>

definition Set_ByProvider :: "(string \<Rightarrow> string \<Rightarrow> bool) \<Rightarrow> Set \<Rightarrow> string \<Rightarrow> Set" where
  "Set_ByProvider EqualFold s name = Set_Filter s (\<lambda>r. EqualFold (Provider r) name)"

text \<open>
  A \<open>*Query\<close> is mutated in place and returned by every chain step: a step is a
  function from the builder's state to its new state.
\<close>

record Query =
  regions :: Set
  errors :: "error list"

definition NewQuery :: "single_registry \<Rightarrow> Query" where
  "NewQuery regionRegistry = \<lparr>regions = single_allRegions regionRegistry, errors = []\<rparr>"

definition Query_ByProvider :: "(string \<Rightarrow> string \<Rightarrow> bool) \<Rightarrow> Query \<Rightarrow> string \<Rightarrow> Query" where
  "Query_ByProvider EqualFold q name = q\<lparr>regions := Set_ByProvider EqualFold (regions q) name\<rparr>"

definition Query_Near :: "fpu \<Rightarrow> Query \<Rightarrow> float64 \<Rightarrow> float64 \<Rightarrow> float64 \<Rightarrow> Query" where
  "Query_Near M q lat lng radiusKm = q\<lparr>regions := Set_Near M (regions q) lat lng radiusKm\<rparr>"

definition Query_NearRegion ::
    "fpu \<Rightarrow> single_registry \<Rightarrow> Query \<Rightarrow> Code \<Rightarrow> float64 \<Rightarrow> Query" where
  "Query_NearRegion M regionRegistry q code radiusKm =
    (case single_Is regionRegistry code of
       (region, Some err) \<Rightarrow> q\<lparr>errors := errors q @ [err]\<rparr>
     | (region, None) \<Rightarrow> Query_Near M q (Latitude region) (Longitude region) radiusKm)"

text \<open>
  \<open>Limit\<close>: the slice expression \<open>q.regions[:n]\<close> panics when \<open>n\<close> is negative.
\<close>

definition Query_Limit :: "Query \<Rightarrow> int \<Rightarrow> panic + Query" where
  "Query_Limit q n =
    (if n < int (length (regions q))
     then (if n < 0 then Inl (SliceBoundsOutOfRange n)
           else Inr (q\<lparr>regions := take (nat n) (regions q)\<rparr>))
     else Inr q)"

definition Query_First :: "Query \<Rightarrow> Region \<times> error option" where
  "Query_First q =
    (if length (errors q) > 0 then (zero_Region, Some (errors q ! 0))
     else Set_First (regions q))"

definition Query_Last :: "Query \<Rightarrow> Region \<times> error option" where
  "Query_Last q =
    (if length (errors q) > 0 then (zero_Region, Some (errors q ! 0))
     else Set_Last (regions q))"

definition Query_ExecWithErrors :: "Query \<Rightarrow> Set \<times> error list" where
  "Query_ExecWithErrors q = (regions q, errors q)"

section \<open>Sample data\<close>

text \<open>
  An arithmetic that agrees with IEEE-754 on the few arguments the examples below
  reach (sums and differences with zero, products with zero or one, the sine, cosine,
  square root and arc tangent at zero and one) and answers a NaN everywhere else.
\<close>

definition qNaN :: float64 where "qNaN = 0x7FF8000000000000"

definition sample_fpu :: fpu where
  "sample_fpu =
    \<lparr>fadd = (\<lambda>x y. if x = 0 then y else if y = 0 then x else qNaN),
     fsub = (\<lambda>x y. if y = 0 then x else if x = y then 0 else qNaN),
     fmul = (\<lambda>x y. if x = 0 \<or> y = 0 then 0 else if x = f1 then y else if y = f1 then x else qNaN),
     fdiv = (\<lambda>x y. if x = 0 \<and> y \<noteq> 0 then 0 else qNaN),
     Sin = (\<lambda>x. if x = 0 then 0 else qNaN),
     Cos = (\<lambda>x. if x = 0 then f1 else qNaN),
     Sqrt = (\<lambda>x. if x = 0 \<or> x = f1 then x else qNaN),
     Atan2 = (\<lambda>y x. if y = 0 \<and> x = f1 then 0 else qNaN)\<rparr>"

definition region_at :: "Code \<Rightarrow> string \<Rightarrow> string \<Rightarrow> Region" where
  "region_at c n p =
    \<lparr>Code = c, Name = n, Provider = p, Country = [], City = [], Continent = [],
     Latitude = 0, Longitude = 0, Status = Active, LaunchDate = 0, Zones = []\<rparr>"

definition us_east_1 :: Region where
  "us_east_1 = region_at ''us-east-1'' ''US East (N. Virginia)'' ''aws''"

definition us_west_2 :: Region where
  "us_west_2 = region_at ''us-west-2'' ''US West (Oregon)'' ''aws''"

definition eastus :: Region where
  "eastus = region_at ''eastus'' ''East US'' ''azure''"

definition sample_registry :: registry where
  "sample_registry =
    [(''us-east-1'', [us_east_1]), (''us-west-2'', [us_west_2]), (''eastus'', [eastus])]"

definition sample_single_registry :: single_registry where
  "sample_single_registry =
    [(''us-east-1'', us_east_1), (''eastus'', eastus), (''us-west-2'', us_west_2)]"

text \<open>Equality up to the case of ASCII letters, which is \<open>strings.EqualFold\<close> on ASCII.\<close>

definition ascii_lower :: "char \<Rightarrow> char" where
  "ascii_lower c =
    (if CHR ''A'' \<le> c \<and> c \<le> CHR ''Z'' then char_of (of_char c + (32 :: nat)) else c)"

definition ascii_EqualFold :: "string \<Rightarrow> string \<Rightarrow> bool" where
  "ascii_EqualFold a b \<longleftrightarrow> map ascii_lower a = map ascii_lower b"






section \<open>Properties of the comparison of \<open>float64\<close> values\<close>




lemma fle_iff: "fle x y \<longleftrightarrow> flt x y \<or> feq x y"
  by (auto simp: flt_def fle_def feq_def)

lemma fle_500_500: "fle f500 f500"
  by code_simp

lemma haversineDistance_same_point: "haversineDistance sample_fpu 0 0 0 0 = 0"
  by code_simp

section \<open>Proximity of a region to a point\<close>

text \<open>
  Claim C7. \<open>IsNear\<close> answers true exactly when the haversine distance from the
  region to the point is less than or equal to the radius, in the order of \<open>float64\<close>:
  when it is less than the radius or equal to it. The boundary is inclusive: a region
  whose distance equals the radius matches.
\<close>

theorem IsNear_inclusive:
  "(IsNear M r lat lng radiusKm \<longleftrightarrow>
      flt (haversineDistance M (Latitude r) (Longitude r) lat lng) radiusKm \<or>
      feq (haversineDistance M (Latitude r) (Longitude r) lat lng) radiusKm) \<and>
   (feq (haversineDistance M (Latitude r) (Longitude r) lat lng) radiusKm \<longrightarrow>
      IsNear M r lat lng radiusKm)"
  by (simp add: IsNear_def fle_iff)

text \<open>
  A region at distance zero from the point, with radius zero, lies on the boundary
  and matches.
\<close>

theorem IsNear_inclusive_witness:
  "feq (haversineDistance sample_fpu (Latitude us_east_1) (Longitude us_east_1) 0 0) 0 \<and>
   IsNear sample_fpu us_east_1 0 0 0"
proof -
  have d: "haversineDistance sample_fpu (Latitude us_east_1) (Longitude us_east_1) 0 0 = 0"
    by (simp add: us_east_1_def region_at_def haversineDistance_same_point)
  have e: "feq 0 0"
    by code_simp
  from e IsNear_inclusive [of sample_fpu us_east_1 0 0 0] show ?thesis
    by (simp add: d)
qed

section \<open>The terminal operations of the query builder\<close>

text \<open>
  Claim C2. When the builder has accumulated an error, \<open>First\<close> and \<open>Last\<close> return
  the first accumulated error with a zero \<open>Region\<close>, whatever the builder's set is;
  when it has accumulated none, they return what \<open>Set.First\<close> and \<open>Set.Last\<close>
  return on the builder's set.
\<close>

theorem Query_First_Last_priority:
  "(errors q \<noteq> [] \<longrightarrow>
      Query_First q = (zero_Region, Some (hd (errors q))) \<and>
      Query_Last q = (zero_Region, Some (hd (errors q)))) \<and>
   (errors q = [] \<longrightarrow>
      Query_First q = Set_First (regions q) \<and> Query_Last q = Set_Last (regions q))"
  by (simp add: Query_First_def Query_Last_def hd_conv_nth)

text \<open>
  On an empty set with one accumulated error the answer is that error, not the
  \<open>"no regions found"\<close> of the empty set.
\<close>

theorem Query_First_Last_priority_witness:
  "Query_First \<lparr>regions = [], errors = [RegionNotFoundCode ''nonexistent-code'']\<rparr>
     = (zero_Region, Some (RegionNotFoundCode ''nonexistent-code'')) \<and>
   Query_Last \<lparr>regions = [], errors = [RegionNotFoundCode ''nonexistent-code'']\<rparr>
     = (zero_Region, Some (RegionNotFoundCode ''nonexistent-code'')) \<and>
   Set_First [] = (zero_Region, Some NoRegionsFound) \<and>
   Query_First \<lparr>regions = [us_east_1, eastus], errors = []\<rparr> = (us_east_1, None) \<and>
   Query_Last \<lparr>regions = [us_east_1, eastus], errors = []\<rparr> = (eastus, None)"
  using Query_First_Last_priority
      [of "\<lparr>regions = [], errors = [RegionNotFoundCode ''nonexistent-code'']\<rparr>"]
    Query_First_Last_priority [of "\<lparr>regions = [us_east_1, eastus], errors = []\<rparr>"]
  by (simp add: Set_First_def Set_Last_def)

section \<open>Limiting a query\<close>

lemma Query_Limit_nonneg:
  "0 \<le> n \<Longrightarrow> Query_Limit q n =
     Inr (if n < int (length (regions q)) then q\<lparr>regions := take (nat n) (regions q)\<rparr> else q)"
  by (simp add: Query_Limit_def)

text \<open>
  Claim C3. \<open>Limit(n)\<close> never aborts, for every integer \<open>n\<close>. This fails on the code:
  a negative \<open>n\<close> is smaller than every length, so the slice expression
  \<open>q.regions[:n]\<close> is evaluated with a negative bound and panics. (For \<open>n \<ge> 0\<close> the
  set is truncated to its first \<open>n\<close> elements or left as it is,
  \<open>Query_Limit_nonneg\<close>.)
\<close>

theorem Query_Limit_negative_panics:
  "Query_Limit \<lparr>regions = [us_east_1, eastus], errors = []\<rparr> (- 1) =
     Inl (SliceBoundsOutOfRange (- 1))"
  by (simp add: Query_Limit_def)

section \<open>An unresolvable reference region\<close>

text \<open>
  Claim C1. When the code does not resolve in the catalog, \<open>NearRegion\<close> appends
  exactly one error (the failure of the resolution) to the builder's error list and
  leaves the builder's set as it is; the chain goes on from that set, so that
  \<open>NewQuery().NearRegion(code, r).ByProvider(p).ExecWithErrors()\<close> returns the
  whole catalog filtered by provider \<open>p\<close> only, together with the one error.
\<close>

theorem NearRegion_unresolved:
  assumes "single_Is regionRegistry code = (z, Some err)"
  shows "regions (Query_NearRegion M regionRegistry q code radiusKm) = regions q \<and>
    errors (Query_NearRegion M regionRegistry q code radiusKm) = errors q @ [err] \<and>
    err = RegionNotFoundCode code \<and>
    Query_ExecWithErrors
      (Query_ByProvider EqualFold
        (Query_NearRegion M regionRegistry (NewQuery regionRegistry) code radiusKm) p) =
      (Set_ByProvider EqualFold (single_allRegions regionRegistry) p, [err])"
  using assms
  by (auto simp: Query_NearRegion_def Query_ExecWithErrors_def Query_ByProvider_def
      NewQuery_def single_Is_def split: option.splits)

lemma sample_Is_nonexistent:
  "single_Is sample_single_registry ''nonexistent-code'' =
    (zero_Region, Some (RegionNotFoundCode ''nonexistent-code''))"
  by (simp add: single_Is_def sample_single_registry_def)

lemma sample_ByProvider_aws:
  "Set_ByProvider ascii_EqualFold (single_allRegions sample_single_registry) ''aws'' =
    [us_east_1, us_west_2]"
  by (simp add: Set_ByProvider_def Set_Filter_def single_allRegions_def
      sample_single_registry_def us_east_1_def us_west_2_def eastus_def region_at_def
      ascii_EqualFold_def ascii_lower_def)

theorem NearRegion_unresolved_witness:
  "Query_ExecWithErrors
     (Query_ByProvider ascii_EqualFold
       (Query_NearRegion sample_fpu sample_single_registry (NewQuery sample_single_registry)
          ''nonexistent-code'' f500)
       ''aws'') =
     ([us_east_1, us_west_2], [RegionNotFoundCode ''nonexistent-code''])"
  using NearRegion_unresolved [OF sample_Is_nonexistent,
      of sample_fpu "NewQuery sample_single_registry" f500 ascii_EqualFold "''aws''"]
  by (simp add: sample_ByProvider_aws)

section \<open>Resolving several codes\<close>

lemma are_loop_eq:
  "are_loop reg codes (rs, nf) =
    (rs @ concat (map (\<lambda>c. the (map_of reg c)) (filter (\<lambda>c. map_of reg c \<noteq> None) codes)),
     nf @ filter (\<lambda>c. map_of reg c = None) codes)"
  by (induction codes arbitrary: rs nf) (auto split: option.splits)

text \<open>
  Claim C5. \<open>Are(codes...)\<close> returns the regions of every code that the registry
  has, in the order of the arguments, and, when at least one code is not in the
  registry, one error that carries all the codes that are not, in the order of the
  arguments; it returns no error otherwise.
\<close>

theorem Are_partial_and_all_unresolved:
  "Are regionRegistry codes =
    (concat (map (\<lambda>c. the (map_of regionRegistry c))
       (filter (\<lambda>c. map_of regionRegistry c \<noteq> None) codes)),
     if filter (\<lambda>c. map_of regionRegistry c = None) codes = [] then None
     else Some (RegionNotFoundCodes (filter (\<lambda>c. map_of regionRegistry c = None) codes)))"
  by (simp add: Are_def are_loop_eq)

theorem Are_partial_and_all_unresolved_witness:
  "Are sample_registry [''us-east-1'', ''bogus'', ''us-west-2''] =
    ([us_east_1, us_west_2], Some (RegionNotFoundCodes [''bogus'']))"
  unfolding Are_partial_and_all_unresolved
  by (simp add: sample_registry_def)

section \<open>Intersection and difference\<close>

lemma map_get_empty [simp]: "map_get Map.empty c = False"
  by (simp add: map_get_def)

lemma map_get_code_map:
  "map_get (code_map other m) c \<longleftrightarrow> map_get m c \<or> c \<in> Code ` set other"
  by (induction other arbitrary: m) (auto simp: map_get_def)

text \<open>
  Claim C6. \<open>Intersect(A, B)\<close> and \<open>Difference(A, B)\<close> partition \<open>A\<close>: the first
  keeps the occurrences in \<open>A\<close> whose code occurs in \<open>B\<close>, the second keeps the
  others, each in the order of \<open>A\<close>; so every occurrence of \<open>A\<close> is in exactly one of
  the two results.
\<close>

theorem Intersect_Difference_partition:
  "Set_Intersect A B = filter (\<lambda>r. Code r \<in> Code ` set B) A \<and>
   Set_Difference A B = filter (\<lambda>r. Code r \<notin> Code ` set B) A \<and>
   mset (Set_Intersect A B) + mset (Set_Difference A B) = mset A \<and>
   set (Set_Intersect A B) \<inter> set (Set_Difference A B) = {} \<and>
   subseq (Set_Intersect A B) A \<and> subseq (Set_Difference A B) A"
proof -
  have i: "Set_Intersect A B = filter (\<lambda>r. Code r \<in> Code ` set B) A"
    by (simp add: Set_Intersect_def map_get_code_map)
  have d: "Set_Difference A B = filter (\<lambda>r. Code r \<notin> Code ` set B) A"
    by (simp add: Set_Difference_def map_get_code_map)
  have m: "mset (filter P A) + mset (filter (\<lambda>r. \<not> P r) A) = mset A" for P
    by (induction A) auto
  show ?thesis
    unfolding i d using m [of "\<lambda>r. Code r \<in> Code ` set B"] by auto
qed

theorem Intersect_Difference_partition_witness:
  "Set_Intersect [us_east_1, eastus, us_west_2] [us_west_2, us_east_1] = [us_east_1, us_west_2] \<and>
   Set_Difference [us_east_1, eastus, us_west_2] [us_west_2, us_east_1] = [eastus]"
  using Intersect_Difference_partition
    [of "[us_east_1, eastus, us_west_2]" "[us_west_2, us_east_1]"]
  by (simp add: us_east_1_def us_west_2_def eastus_def region_at_def)

section \<open>The exchange sort\<close>

lemma sort_inner_length: "length (sort_inner gt i j s) = length s"
proof (induction gt i j s rule: sort_inner.induct)
  case (1 gt i j s)
  show ?case
  proof (cases "j < length s")
    case True
    with "1.IH" show ?thesis by (subst sort_inner.simps) simp
  next
    case False
    then show ?thesis by (subst sort_inner.simps) simp
  qed
qed

lemma sort_inner_mset: "i < j \<Longrightarrow> mset (sort_inner gt i j s) = mset s"
proof (induction gt i j s rule: sort_inner.induct)
  case (1 gt i j s)
  show ?case
  proof (cases "j < length s")
    case True
    let ?s1 = "if gt (s ! i) (s ! j) then s[i := s ! j, j := s ! i] else s"
    from True "1.prems" have "mset ?s1 = mset s"
      by (simp add: mset_swap)
    moreover from "1.IH" [OF True] "1.prems"
    have "mset (sort_inner gt i (j + 1) ?s1) = mset ?s1" by simp
    ultimately show ?thesis using True by (subst sort_inner.simps) simp
  next
    case False
    then show ?thesis by (subst sort_inner.simps) simp
  qed
qed

lemma sort_inner_take: "i < j \<Longrightarrow> take i (sort_inner gt i j s) = take i s"
proof (induction gt i j s rule: sort_inner.induct)
  case (1 gt i j s)
  show ?case
  proof (cases "j < length s")
    case True
    let ?s1 = "if gt (s ! i) (s ! j) then s[i := s ! j, j := s ! i] else s"
    from "1.prems" have "take i ?s1 = take i s" by simp
    moreover from "1.IH" [OF True] "1.prems"
    have "take i (sort_inner gt i (j + 1) ?s1) = take i ?s1" by simp
    ultimately show ?thesis using True by (subst sort_inner.simps) simp
  next
    case False
    then show ?thesis by (subst sort_inner.simps) simp
  qed
qed

lemma sort_inner_min:
  fixes key :: "'a \<Rightarrow> 'k::linorder"
  assumes "i < j"
    and "\<forall>k. i < k \<and> k < j \<longrightarrow> key (s ! i) \<le> key (s ! k)"
  shows "\<forall>k. i < k \<and> k < length s \<longrightarrow>
    key (sort_inner (\<lambda>a b. key a > key b) i j s ! i)
      \<le> key (sort_inner (\<lambda>a b. key a > key b) i j s ! k)"
  using assms
proof (induction "\<lambda>a b. key a > key b" i j s rule: sort_inner.induct)
  case (1 i j s)
  let ?gt = "\<lambda>a b. key a > key b"
  show ?case
  proof (cases "j < length s")
    case True
    let ?s1 = "if ?gt (s ! i) (s ! j) then s[i := s ! j, j := s ! i] else s"
    have len: "length ?s1 = length s" by simp
    have pre: "\<forall>k. i < k \<and> k < j + 1 \<longrightarrow> key (?s1 ! i) \<le> key (?s1 ! k)"
    proof (intro allI impI)
      fix k assume k: "i < k \<and> k < j + 1"
      show "key (?s1 ! i) \<le> key (?s1 ! k)"
      proof (cases "?gt (s ! i) (s ! j)")
        case sw: True
        from True "1.prems"(1) have i1: "?s1 ! i = s ! j"
          using sw by (simp add: nth_list_update)
        show ?thesis
        proof (cases "k = j")
          case True
          with sw \<open>j < length s\<close> "1.prems"(1) have "?s1 ! k = s ! i"
            by (simp add: nth_list_update)
          with i1 sw show ?thesis by simp
        next
          case False
          with k have kj: "i < k \<and> k < j" by simp
          with sw have "?s1 ! k = s ! k" by (simp add: nth_list_update)
          moreover from kj "1.prems"(2) have "key (s ! i) \<le> key (s ! k)" by blast
          ultimately show ?thesis using i1 sw by simp
        qed
      next
        case ns: False
        then have eq: "?s1 = s" by simp
        show ?thesis
        proof (cases "k = j")
          case True
          with ns show ?thesis by simp
        next
          case False
          with k have kj: "i < k \<and> k < j" by simp
          with "1.prems"(2) have "key (s ! i) \<le> key (s ! k)" by blast
          with ns show ?thesis by simp
        qed
      qed
    qed
    from "1.prems"(1) have ij: "i < j + 1" by simp
    from "1.hyps" [OF True ij pre] len
    have "\<forall>k. i < k \<and> k < length s \<longrightarrow>
      key (sort_inner ?gt i (j + 1) ?s1 ! i) \<le> key (sort_inner ?gt i (j + 1) ?s1 ! k)"
      by simp
    then show ?thesis using True by (subst (1 2) sort_inner.simps) simp
  next
    case False
    with "1.prems" show ?thesis by (subst (1 2) sort_inner.simps) simp
  qed
qed


lemma sort_outer_mset: "mset (sort_outer gt i s) = mset s"
proof (induction gt i s rule: sort_outer.induct)
  case (1 gt i s)
  show ?case
  proof (cases "i + 1 < length s")
    case True
    with "1.IH" have "mset (sort_outer gt (i + 1) (sort_inner gt i (i + 1) s)) = mset s"
      by (simp add: sort_inner_mset)
    with True show ?thesis by (subst sort_outer.simps) simp
  next
    case False
    then show ?thesis by (subst sort_outer.simps) simp
  qed
qed

lemma sort_inner_drop_set:
  assumes "i < j"
  shows "set (drop i (sort_inner gt i j s)) = set (drop i s)"
proof -
  let ?t = "sort_inner gt i j s"
  have "mset (take i ?t) + mset (drop i ?t) = mset (take i s) + mset (drop i s)"
    using sort_inner_mset [OF assms, of gt s]
    by (metis append_take_drop_id mset_append)
  with sort_inner_take [OF assms, of gt s] have "mset (drop i ?t) = mset (drop i s)"
    by simp
  then show ?thesis by (rule mset_eq_setD)
qed

lemma sort_outer_sorted:
  fixes key :: "'a \<Rightarrow> 'k::linorder"
  assumes "sorted (map key (take i s))"
    and "\<forall>a\<in>set (take i s). \<forall>b\<in>set (drop i s). key a \<le> key b"
  shows "sorted (map key (sort_outer (\<lambda>a b. key a > key b) i s))"
  using assms
proof (induction "\<lambda>a b. key a > key b" i s rule: sort_outer.induct)
  case (1 i s)
  let ?gt = "\<lambda>a b. key a > key b"
  show ?case
  proof (cases "i + 1 < length s")
    case True
    let ?t = "sort_inner ?gt i (i + 1) s"
    have len: "length ?t = length s" by (rule sort_inner_length)
    have tk: "take i ?t = take i s" by (rule sort_inner_take) simp
    have dr: "set (drop i ?t) = set (drop i s)" by (rule sort_inner_drop_set) simp
    have mn: "\<forall>k. i < k \<and> k < length s \<longrightarrow> key (?t ! i) \<le> key (?t ! k)"
      by (rule sort_inner_min) (simp, auto)
    from True len have il: "i < length ?t" by simp
    then have ti: "?t ! i \<in> set (drop i ?t)"
      by (metis Cons_nth_drop_Suc list.set_intros(1))
    have tS: "take (i + 1) ?t = take i s @ [?t ! i]"
      using il tk by (simp add: take_Suc_conv_app_nth)
    have "sorted (map key (take i s @ [?t ! i]))"
      using "1.prems" ti dr by (simp add: sorted_append)
    then have s1: "sorted (map key (take (i + 1) ?t))"
      by (simp only: tS)
    have s2: "\<forall>a\<in>set (take (i + 1) ?t). \<forall>b\<in>set (drop (i + 1) ?t). key a \<le> key b"
    proof (intro ballI)
      fix a b
      assume a: "a \<in> set (take (i + 1) ?t)" and b: "b \<in> set (drop (i + 1) ?t)"
      have "set (drop (i + 1) ?t) \<subseteq> set (drop i ?t)"
        by (rule set_drop_subset_set_drop) simp
      with b have bi: "b \<in> set (drop i ?t)" by blast
      from b obtain m where m: "m < length ?t - (i + 1)" "b = ?t ! (i + 1 + m)"
        by (auto simp: in_set_conv_nth)
      from a tS have "a \<in> set (take i s) \<or> a = ?t ! i" by auto
      then show "key a \<le> key b"
      proof
        assume "a \<in> set (take i s)"
        with bi dr "1.prems"(2) show ?thesis by blast
      next
        assume "a = ?t ! i"
        moreover from m len have "i < i + 1 + m \<and> i + 1 + m < length s" by simp
        ultimately show ?thesis using mn m(2) by blast
      qed
    qed
    from "1.hyps" [OF True s1 s2] True show ?thesis
      by (subst sort_outer.simps) simp
  next
    case False
    have "sorted (map key (take i s @ drop i s))"
      unfolding map_append sorted_append
    proof (intro conjI)
      show "sorted (map key (take i s))" by (rule "1.prems"(1))
      from False have "length (drop i s) \<le> 1" by simp
      then show "sorted (map key (drop i s))"
        by (cases "drop i s") (auto simp: Suc_le_eq)
      show "\<forall>x\<in>set (map key (take i s)). \<forall>y\<in>set (map key (drop i s)). x \<le> y"
        using "1.prems"(2) by auto
    qed
    then have "sorted (map key s)" by simp
    with False show ?thesis by (subst sort_outer.simps) simp
  qed
qed

text \<open>
  Claim C8. After \<open>SortByName\<close> the names of the elements are in non-decreasing
  (lexicographic) order, for every input set.
\<close>

theorem SortByName_sorted: "sorted (map Name (Set_SortByName s))"
  unfolding Set_SortByName_def by (rule sort_outer_sorted) simp_all

theorem SortByName_sorted_witness:
  "map Name (Set_SortByName [us_west_2, eastus, us_east_1]) =
     [''East US'', ''US East (N. Virginia)'', ''US West (Oregon)''] \<and>
   sorted [''East US'', ''US East (N. Virginia)'', ''US West (Oregon)'']"
proof -
  have "map Name (Set_SortByName [us_west_2, eastus, us_east_1]) =
      [''East US'', ''US East (N. Virginia)'', ''US West (Oregon)'']"
    by code_simp
  with SortByName_sorted [of "[us_west_2, eastus, us_east_1]"] show ?thesis
    by simp
qed

text \<open>
  Claim C9. Each of the four sorts returns a permutation of its input: the multiset
  of the regions and the length of the set are preserved.
\<close>

theorem sorts_permute:
  "mset (Set_SortByDistance M s lat lng) = mset s \<and>
   mset (Set_SortByName s) = mset s \<and>
   mset (Set_SortByProvider s) = mset s \<and>
   mset (Set_SortByCountry s) = mset s \<and>
   length (Set_SortByDistance M s lat lng) = length s \<and>
   length (Set_SortByName s) = length s \<and>
   length (Set_SortByProvider s) = length s \<and>
   length (Set_SortByCountry s) = length s"
proof -
  have "length (sort_outer gt 0 s) = length s" for gt :: "Region \<Rightarrow> Region \<Rightarrow> bool"
    using sort_outer_mset [of gt 0 s] by (rule mset_eq_length)
  then show ?thesis
    by (simp add: Set_SortByDistance_def Set_SortByName_def Set_SortByProvider_def
        Set_SortByCountry_def sort_outer_mset)
qed

theorem sorts_permute_witness:
  "Set_SortByProvider [eastus, us_west_2, eastus, us_east_1] =
     [us_west_2, us_east_1, eastus, eastus] \<and>
   mset (Set_SortByProvider [eastus, us_west_2, eastus, us_east_1]) =
     mset [eastus, us_west_2, eastus, us_east_1]"
proof -
  have "Set_SortByProvider [eastus, us_west_2, eastus, us_east_1] =
      [us_west_2, us_east_1, eastus, eastus]"
    by code_simp
  with sorts_permute [of sample_fpu "[eastus, us_west_2, eastus, us_east_1]" 0 0]
  show ?thesis by simp
qed

section \<open>Union\<close>

lemma union_loop_inv:
  assumes "union_loop xs (seen, res) = (seen', res')"
    and "\<forall>c. map_get seen c \<longleftrightarrow> c \<in> Code ` set res"
    and "distinct (map Code res)"
  shows "(\<forall>c. map_get seen' c \<longleftrightarrow> c \<in> Code ` set res') \<and>
    distinct (map Code res') \<and>
    Code ` set res' = Code ` set res \<union> Code ` set xs"
  using assms
proof (induction xs arbitrary: seen res)
  case Nil
  then show ?case by simp
next
  case (Cons x xs)
  show ?case
  proof (cases "map_get seen (Code x)")
    case True
    with Cons.prems(1) have run: "union_loop xs (seen, res) = (seen', res')" by simp
    from Cons.IH [OF run Cons.prems(2,3)] True Cons.prems(2) show ?thesis by auto
  next
    case False
    with Cons.prems(1)
    have run: "union_loop xs (seen(Code x \<mapsto> True), res @ [x]) = (seen', res')" by simp
    have a: "\<forall>c. map_get (seen(Code x \<mapsto> True)) c \<longleftrightarrow> c \<in> Code ` set (res @ [x])"
      using Cons.prems(2) by (auto simp: map_get_def)
    have b: "distinct (map Code (res @ [x]))"
      using Cons.prems(2,3) False by auto
    from Cons.IH [OF run a b] show ?thesis by auto
  qed
qed

lemma Set_Union_codes:
  "distinct (map Code (Set_Union A B)) \<and>
   Code ` set (Set_Union A B) = Code ` set A \<union> Code ` set B"
proof -
  obtain seen1 res1 where r1: "union_loop A (Map.empty, []) = (seen1, res1)"
    by (cases "union_loop A (Map.empty, [])")
  obtain seen2 res2 where r2: "union_loop B (seen1, res1) = (seen2, res2)"
    by (cases "union_loop B (seen1, res1)")
  have i1: "(\<forall>c. map_get seen1 c \<longleftrightarrow> c \<in> Code ` set res1) \<and>
    distinct (map Code res1) \<and> Code ` set res1 = Code ` set ([] :: Set) \<union> Code ` set A"
    by (rule union_loop_inv [OF r1]) (simp_all add: map_get_def)
  then have i2: "(\<forall>c. map_get seen2 c \<longleftrightarrow> c \<in> Code ` set res2) \<and>
    distinct (map Code res2) \<and> Code ` set res2 = Code ` set res1 \<union> Code ` set B"
    by (intro union_loop_inv [OF r2]) simp_all
  have "Set_Union A B = res2"
    by (simp add: Set_Union_def r1 r2)
  with i1 i2 show ?thesis by simp
qed

text \<open>
  Claim C4, as the code has it. No code appears twice in \<open>Union(A, B)\<close>, and its
  length is the number of distinct codes of \<open>A\<close> plus the number of distinct codes
  of \<open>B\<close> minus the number of codes common to both. When neither \<open>A\<close> nor \<open>B\<close>
  repeats a code this is \<open>|A| + |B|\<close> minus the number of common codes.
\<close>

theorem Union_length:
  "length (Set_Union A B) =
     card (Code ` set A) + card (Code ` set B) - card (Code ` set A \<inter> Code ` set B) \<and>
   distinct (map Code (Set_Union A B)) \<and>
   (distinct (map Code A) \<and> distinct (map Code B) \<longrightarrow>
     length (Set_Union A B) =
       length A + length B - card (Code ` set A \<inter> Code ` set B))"
proof -
  let ?a = "Code ` set A" and ?b = "Code ` set B"
  from Set_Union_codes [of A B]
  have d: "distinct (map Code (Set_Union A B))"
    and c: "Code ` set (Set_Union A B) = ?a \<union> ?b" by simp_all
  have "length (Set_Union A B) = length (map Code (Set_Union A B))" by simp
  also from d have "\<dots> = card (set (map Code (Set_Union A B)))"
    by (rule distinct_card [symmetric])
  also from c have "\<dots> = card (?a \<union> ?b)" by simp
  finally have l: "length (Set_Union A B) = card (?a \<union> ?b)" .
  have "card ?a + card ?b = card (?a \<union> ?b) + card (?a \<inter> ?b)"
    by (rule card_Un_Int) simp_all
  with l have g: "length (Set_Union A B) = card ?a + card ?b - card (?a \<inter> ?b)"
    by simp
  have "length X = card (Code ` set X)" if "distinct (map Code X)" for X :: Set
    using distinct_card [OF that, symmetric] by simp
  with g d show ?thesis by auto
qed

theorem Union_length_witness:
  "Set_Union [us_east_1, eastus] [eastus, us_west_2, eastus] = [us_east_1, eastus, us_west_2] \<and>
   length (Set_Union [us_east_1, eastus] [us_west_2, eastus]) =
     length [us_east_1, eastus] + length [us_west_2, eastus]
       - card (Code ` set [us_east_1, eastus] \<inter> Code ` set [us_west_2, eastus])"
proof -
  have "Set_Union [us_east_1, eastus] [eastus, us_west_2, eastus] = [us_east_1, eastus, us_west_2]"
    by (simp add: Set_Union_def map_get_def us_east_1_def us_west_2_def eastus_def region_at_def)
  moreover have "distinct (map Code [us_east_1, eastus]) \<and> distinct (map Code [us_west_2, eastus])"
    by (simp add: us_east_1_def us_west_2_def eastus_def region_at_def)
  ultimately show ?thesis
    using Union_length [of "[us_east_1, eastus]" "[us_west_2, eastus]"] by blast
qed

text \<open>
  With the element counts \<open>|A|\<close> and \<open>|B|\<close> the equation fails on a set that
  repeats a code: \<open>Union\<close> keeps the first occurrence only.
\<close>

theorem Union_length_counterexample:
  "length (Set_Union [us_east_1, us_east_1] []) \<noteq>
     length [us_east_1, us_east_1] + length ([] :: Set)
       - card (Code ` set [us_east_1, us_east_1] \<inter> Code ` set ([] :: Set))"
  by (simp add: Set_Union_def map_get_def)

section \<open>The closest other region\<close>













end
